theory Spec2Isabelle
  imports Main
begin

section \<open>Python values\<close>

text \<open>
  A Python \<^verbatim>\<open>str\<close> is a sequence of Unicode code points, so a character is a natural
  number and a string a list of them. \<open>cps\<close> reads an ASCII literal as such a list.
  Python's integers are unbounded: \<open>int\<close>.
\<close>

type_synonym cp = nat
type_synonym pystr = "cp list"

definition cps :: "string \<Rightarrow> pystr" where
  "cps s = map of_char s"

datatype py_error = IndexError

datatype pyval = PyInt int | PyStr pystr

subsection \<open>The string methods the converters call\<close>

text \<open>
  \<^verbatim>\<open>str.isspace\<close> on one character: the code points that \<^verbatim>\<open>str.split()\<close> (no
  argument) treats as separators.
\<close>

definition isspace :: "cp \<Rightarrow> bool" where
  "isspace c \<longleftrightarrow>
     (9 \<le> c \<and> c \<le> 13) \<or> (28 \<le> c \<and> c \<le> 32) \<or> c = 0x85 \<or> c = 0xA0 \<or> c = 0x1680 \<or>
     (0x2000 \<le> c \<and> c \<le> 0x200A) \<or> c = 0x2028 \<or> c = 0x2029 \<or> c = 0x202F \<or>
     c = 0x205F \<or> c = 0x3000"

text \<open>
  \<^verbatim>\<open>s.split()\<close>: the maximal runs of non-space characters, in order; no empty word.
  The first argument is the word read so far.
\<close>

fun split_from :: "pystr \<Rightarrow> pystr \<Rightarrow> pystr list" where
  "split_from w [] = (if w = [] then [] else [w])"
| "split_from w (c # cs) =
     (if isspace c then (if w = [] then split_from [] cs else w # split_from [] cs)
      else split_from (w @ [c]) cs)"

definition str_split :: "pystr \<Rightarrow> pystr list" where
  "str_split s = split_from [] s"

text \<open>
  \<^verbatim>\<open>s.lower()\<close>. On ASCII it maps \<open>A\<close>..\<open>Z\<close> to \<open>a\<close>..\<open>z\<close> and keeps every other
  character. Outside ASCII the result of one character is given by the Unicode case
  tables of the interpreter, which are not part of the repository: they are the
  parameter \<open>ul\<close> (one character may lower to several, as U+0130 does).
\<close>

definition ascii_lower :: "cp \<Rightarrow> cp" where
  "ascii_lower c = (if 65 \<le> c \<and> c \<le> 90 then c + 32 else c)"

definition lower_cp :: "(cp \<Rightarrow> pystr) \<Rightarrow> cp \<Rightarrow> pystr" where
  "lower_cp ul c = (if c < 128 then [ascii_lower c] else ul c)"

definition str_lower :: "(cp \<Rightarrow> pystr) \<Rightarrow> pystr \<Rightarrow> pystr" where
  "str_lower ul s = concat (map (lower_cp ul) s)"

text \<open>\<^verbatim>\<open>s.replace(old, new)\<close> for one-character \<open>old\<close> and \<open>new\<close>.\<close>

definition str_replace :: "cp \<Rightarrow> cp \<Rightarrow> pystr \<Rightarrow> pystr" where
  "str_replace old new s = map (\<lambda>c. if c = old then new else c) s"

text \<open>\<^verbatim>\<open>sep.join(ws)\<close>.\<close>

fun str_join :: "pystr \<Rightarrow> pystr list \<Rightarrow> pystr" where
  "str_join sep [] = []"
| "str_join sep [w] = w"
| "str_join sep (w # v # ws) = w @ sep @ str_join sep (v # ws)"

text \<open>\<^verbatim>\<open>str(n)\<close> for an integer: its decimal digits, after a minus sign if \<open>n < 0\<close>.\<close>

fun digits_of :: "nat \<Rightarrow> pystr" where
  "digits_of n = (if n < 10 then [48 + n] else digits_of (n div 10) @ [48 + n mod 10])"

declare digits_of.simps [simp del]

definition py_str :: "int \<Rightarrow> pystr" where
  "py_str n = (if n < 0 then 45 # digits_of (nat (- n)) else digits_of (nat n))"

text \<open>
  A character \<open>d\<close> for which \<^verbatim>\<open>d.isnumeric()\<close> holds and \<^verbatim>\<open>int(d)\<close> does not raise
  \<^verbatim>\<open>ValueError\<close>: exactly the decimal digits of Unicode (category Nd), which come in
  runs of ten from a zero. \<open>DECIMAL_ZEROS\<close> lists the zeros (Unicode 14.0.0);
  \<open>decimal_value\<close> is \<^verbatim>\<open>int(d)\<close>, or \<open>None\<close> for any other character.
\<close>

definition DECIMAL_ZEROS :: "cp list" where
  "DECIMAL_ZEROS =
    [0x30, 0x660, 0x6F0, 0x7C0, 0x966, 0x9E6, 0xA66, 0xAE6, 0xB66, 0xBE6, 0xC66, 0xCE6,
     0xD66, 0xDE6, 0xE50, 0xED0, 0xF20, 0x1040, 0x1090, 0x17E0, 0x1810, 0x1946, 0x19D0,
     0x1A80, 0x1A90, 0x1B50, 0x1BB0, 0x1C40, 0x1C50, 0xA620, 0xA8D0, 0xA900, 0xA9D0,
     0xA9F0, 0xAA50, 0xABF0, 0xFF10, 0x104A0, 0x10D30, 0x11066, 0x110F0, 0x11136,
     0x111D0, 0x112F0, 0x11450, 0x114D0, 0x11650, 0x116C0, 0x11730, 0x118E0, 0x11950,
     0x11C50, 0x11D50, 0x11DA0, 0x16A60, 0x16AC0, 0x16B50, 0x1D7CE, 0x1D7D8, 0x1D7E2,
     0x1D7EC, 0x1D7F6, 0x1E140, 0x1E2F0, 0x1E950, 0x1FBF0]"

definition decimal_value :: "cp \<Rightarrow> int option" where
  "decimal_value d =
     (case List.find (\<lambda>z. z \<le> d \<and> d < z + 10) DECIMAL_ZEROS of
        None \<Rightarrow> None
      | Some z \<Rightarrow> Some (int (d - z)))"

section \<open>English number words: \<^verbatim>\<open>en2an\<close>\<close>

text \<open>A dictionary literal is an association list, looked up with \<open>map_of\<close>; no key repeats.\<close>

definition EN_NUM :: "(pystr \<times> int) list" where
  "EN_NUM =
    [(cps ''zero'', 0), (cps ''one'', 1), (cps ''two'', 2), (cps ''three'', 3),
     (cps ''four'', 4), (cps ''five'', 5), (cps ''six'', 6), (cps ''seven'', 7),
     (cps ''eight'', 8), (cps ''nine'', 9), (cps ''ten'', 10), (cps ''eleven'', 11),
     (cps ''twelve'', 12), (cps ''thirteen'', 13), (cps ''fourteen'', 14),
     (cps ''fifteen'', 15), (cps ''sixteen'', 16), (cps ''seventeen'', 17),
     (cps ''eighteen'', 18), (cps ''nineteen'', 19)]"

definition EN_UNIT :: "(pystr \<times> int) list" where
  "EN_UNIT =
    [(cps ''twenty'', 20), (cps ''thirty'', 30), (cps ''forty'', 40), (cps ''fifty'', 50),
     (cps ''sixty'', 60), (cps ''seventy'', 70), (cps ''eighty'', 80), (cps ''ninety'', 90),
     (cps ''hundred'', 100), (cps ''thousand'', 1000), (cps ''million'', 1000000),
     (cps ''billion'', 1000000000), (cps ''trillion'', 1000000000000)]"

text \<open>
  The \<^verbatim>\<open>for word in words\<close> loop, on the words still to read and the two variables.
  \<^verbatim>\<open>return -1\<close> inside the loop ends the function (the warning it prints is not
  modelled); after the last word the function returns
  \<^verbatim>\<open>result + current_number\<close>.
\<close>

fun en_loop :: "pystr list \<Rightarrow> int \<Rightarrow> int \<Rightarrow> int" where
  "en_loop [] current_number result = result + current_number"
| "en_loop (word # words) current_number result =
     (case map_of EN_NUM word of
        Some v \<Rightarrow> en_loop words (current_number + v) result
      | None \<Rightarrow>
         (case map_of EN_UNIT word of
            Some unit_value \<Rightarrow>
              (if unit_value \<ge> 100 then
                 en_loop words 0
                   (result + (if current_number = 0 then 1 else current_number) * unit_value)
               else en_loop words (current_number + unit_value) result)
          | None \<Rightarrow>
              (if word = cps ''and'' then en_loop words current_number result else - 1)))"

definition en_words :: "(cp \<Rightarrow> pystr) \<Rightarrow> pystr \<Rightarrow> pystr list" where
  "en_words ul english_number_words =
     str_split (str_replace 45 32 (str_lower ul english_number_words))"

definition en2an :: "(cp \<Rightarrow> pystr) \<Rightarrow> pystr \<Rightarrow> int" where
  "en2an ul english_number_words = en_loop (en_words ul english_number_words) 0 0"

section \<open>Arabic number words: \<^verbatim>\<open>ar2an\<close>\<close>

definition AR_NUM :: "(pystr \<times> int) list" where
  "AR_NUM =
    [([0x635, 0x641, 0x631], 0),
     ([0x648, 0x627, 0x62D, 0x62F], 1),
     ([0x627, 0x62B, 0x646, 0x627, 0x646], 2),
     ([0x62B, 0x644, 0x627, 0x62B, 0x629], 3),
     ([0x623, 0x631, 0x628, 0x639, 0x629], 4),
     ([0x62E, 0x645, 0x633, 0x629], 5),
     ([0x633, 0x62A, 0x629], 6),
     ([0x633, 0x628, 0x639, 0x629], 7),
     ([0x62B, 0x645, 0x627, 0x646, 0x64A, 0x629], 8),
     ([0x62A, 0x633, 0x639, 0x629], 9),
     ([0x639, 0x634, 0x631, 0x629], 10),
     ([0x623, 0x62D, 0x62F, 0x20, 0x639, 0x634, 0x631], 11),
     ([0x627, 0x62B, 0x646, 0x627, 0x20, 0x639, 0x634, 0x631], 12),
     ([0x62B, 0x644, 0x627, 0x62B, 0x629, 0x20, 0x639, 0x634, 0x631], 13),
     ([0x623, 0x631, 0x628, 0x639, 0x629, 0x20, 0x639, 0x634, 0x631], 14),
     ([0x62E, 0x645, 0x633, 0x629, 0x20, 0x639, 0x634, 0x631], 15),
     ([0x633, 0x62A, 0x629, 0x20, 0x639, 0x634, 0x631], 16),
     ([0x633, 0x628, 0x639, 0x629, 0x20, 0x639, 0x634, 0x631], 17),
     ([0x62B, 0x645, 0x627, 0x646, 0x64A, 0x629, 0x20, 0x639, 0x634, 0x631], 18),
     ([0x62A, 0x633, 0x639, 0x629, 0x20, 0x639, 0x634, 0x631], 19),
     ([0x639, 0x634, 0x631, 0x648, 0x646], 20),
     ([0x62B, 0x644, 0x627, 0x62B, 0x648, 0x646], 30),
     ([0x623, 0x631, 0x628, 0x639, 0x648, 0x646], 40),
     ([0x62E, 0x645, 0x633, 0x648, 0x646], 50),
     ([0x633, 0x62A, 0x648, 0x646], 60),
     ([0x633, 0x628, 0x639, 0x648, 0x646], 70),
     ([0x62B, 0x645, 0x627, 0x646, 0x648, 0x646], 80),
     ([0x62A, 0x633, 0x639, 0x648, 0x646], 90),
     ([0x645, 0x627, 0x626, 0x629], 100),
     ([0x645, 0x626, 0x62A, 0x627, 0x646], 200),
     ([0x62B, 0x644, 0x627, 0x62B, 0x645, 0x627, 0x626, 0x629], 300),
     ([0x623, 0x644, 0x641], 1000),
     ([0x623, 0x644, 0x641, 0x627, 0x646], 2000),
     ([0x645, 0x644, 0x64A, 0x648, 0x646], 1000000),
     ([0x645, 0x644, 0x64A, 0x648, 0x646, 0x627, 0x646], 2000000),
     ([0x645, 0x644, 0x64A, 0x627, 0x631], 1000000000),
     ([0x645, 0x644, 0x64A, 0x627, 0x631, 0x627, 0x646], 2000000000),
     ([0x62A, 0x631, 0x644, 0x64A, 0x648, 0x646], 1000000000000)]"

definition AR_CONJUNCTION :: pystr where
  "AR_CONJUNCTION = [0x648]"

text \<open>
  The \<^verbatim>\<open>while i < len(words)\<close> loop. The list is \<^verbatim>\<open>words[i:]\<close>, the words from the
  cursor on: the body reads nothing before the cursor. \<^verbatim>\<open>words[i:i+2]\<close> is
  \<open>take 2\<close> of it (one word only at the last position), \<^verbatim>\<open>i += 2\<close> drops two words
  (or the last one) and \<^verbatim>\<open>i += 1\<close> one.
\<close>

fun ar_loop :: "pystr list \<Rightarrow> int \<Rightarrow> int \<Rightarrow> int" where
  "ar_loop [] current_number result = result + current_number"
| "ar_loop (word # rest) current_number result =
     (case map_of AR_NUM (str_join [32] (take 2 (word # rest))) of
        Some v \<Rightarrow> ar_loop (drop 1 rest) (current_number + v) result
      | None \<Rightarrow>
         (case map_of AR_NUM word of
            Some val \<Rightarrow>
              (if val \<ge> 1000 then
                 ar_loop rest 0
                   (result + (if current_number = 0 then 1 else current_number) * val)
               else ar_loop rest (current_number + val) result)
          | None \<Rightarrow>
              (if word = AR_CONJUNCTION then ar_loop rest current_number result else - 1)))"

definition ar2an :: "pystr \<Rightarrow> int" where
  "ar2an arabic_number_words = ar_loop (str_split arabic_number_words) 0 0"

section \<open>Chinese numerals: \<^verbatim>\<open>cn2an\<close>\<close>

definition CN_NUM :: "(cp \<times> int) list" where
  "CN_NUM =
    [(0x3007, 0), (0x4E00, 1), (0x4E8C, 2), (0x4E09, 3), (0x56DB, 4), (0x4E94, 5),
     (0x516D, 6), (0x4E03, 7), (0x516B, 8), (0x4E5D, 9),
     (0x96F6, 0), (0x58F9, 1), (0x8D30, 2), (0x53C1, 3), (0x8086, 4), (0x4F0D, 5),
     (0x9646, 6), (0x67D2, 7), (0x634C, 8), (0x7396, 9),
     (0x8CAE, 2), (0x4E24, 2), (0x4FE9, 2), (0x5006, 2), (0x8425, 0), (0x5176, 7),
     (0x897F, 7), (0x6C14, 7), (0x5427, 8), (0x5C31, 9)]"

definition CN_UNIT :: "(cp \<times> int) list" where
  "CN_UNIT =
    [(0x5341, 10), (0x62FE, 10), (0x662F, 10), (0x5B9E, 10), (0x65F6, 10),
     (0x767E, 100), (0x4F70, 100)]"

text \<open>
  What the body of the first loop appends to \<^verbatim>\<open>tmp\<close> for the character \<open>d\<close>
  (\<open>None\<close>: nothing): the three branches in the order of the source.
\<close>

definition classify :: "cp \<Rightarrow> int option" where
  "classify d =
     (case map_of CN_NUM d of
        Some v \<Rightarrow> Some v
      | None \<Rightarrow> (case map_of CN_UNIT d of Some v \<Rightarrow> Some v | None \<Rightarrow> decimal_value d))"

text \<open>\<^verbatim>\<open>for d in chinese_number[::-1]\<close>: the input is read from its last character.\<close>

definition tokenize :: "pystr \<Rightarrow> int list" where
  "tokenize chinese_number = List.map_filter classify (rev chinese_number)"

text \<open>
  The second loop, \<^verbatim>\<open>for i in range(0, tmp_len)\<close>. The first argument is
  \<^verbatim>\<open>tmp[i:]\<close>: the body reads \<^verbatim>\<open>tmp[i]\<close> and \<^verbatim>\<open>tmp[i + 1]\<close> and writes
  \<^verbatim>\<open>tmp[i + 1]\<close> only, so nothing before \<open>i\<close> matters. The second is \<^verbatim>\<open>tmp2\<close>.
\<close>

fun normalize_units :: "int list \<Rightarrow> int list \<Rightarrow> int list" where
  "normalize_units [] tmp2 = tmp2"
| "normalize_units [t] tmp2 = (if t > 9 then tmp2 @ [t, 1] else tmp2 @ [t])"
| "normalize_units (t # u # us) tmp2 =
     (if t > 9 then
        (if u > t then normalize_units (u # us) (tmp2 @ [t, 1])
         else if u > 9 then normalize_units ((u * t) # us) tmp2
         else normalize_units (u # us) (tmp2 @ [t]))
      else normalize_units (u # us) (tmp2 @ [t]))"

text \<open>
  The inner loop \<^verbatim>\<open>while curW < w\<close> with \<^verbatim>\<open>w = math.log10(t)\<close>. The logarithm is
  taken as the real one: for an integer \<open>curW\<close>, \<open>curW < log10 t\<close> is \<open>10 ^ curW < t\<close>.
  Every \<open>t\<close> that reaches this loop is a product of scale values, a power of ten, and
  the floating-point \<^verbatim>\<open>math.log10\<close> returns the exact exponent for 10 and 100 (and
  for every power of ten a realistic input can build); the rounding of the logarithm of
  a very large power of ten is not modelled.
\<close>

function pad :: "nat \<Rightarrow> int \<Rightarrow> int list \<Rightarrow> nat \<times> int list" where
  "pad curW t seq = (if 10 ^ curW < t then pad (curW + 1) t (seq @ [- 1]) else (curW, seq))"
  by pat_completeness auto
termination
proof (relation "measure (\<lambda>(curW, t, seq). nat (t - 10 ^ curW))")
  show "wf (measure (\<lambda>(curW, t, seq). nat (t - 10 ^ curW)))"
    by simp
next
  fix curW :: nat and t :: int and seq :: "int list"
  assume "10 ^ curW < t"
  then show "((curW + 1, t, seq @ [- 1]), (curW, t, seq))
      \<in> measure (\<lambda>(curW, t, seq). nat (t - 10 ^ curW))"
    by simp
qed

declare pad.simps [simp del]

text \<open>The third loop, \<^verbatim>\<open>for t in tmp2\<close>, on the rest of \<^verbatim>\<open>tmp2\<close>, \<^verbatim>\<open>curW\<close> and \<^verbatim>\<open>seq\<close>.\<close>

fun assemble :: "int list \<Rightarrow> nat \<Rightarrow> int list \<Rightarrow> int list" where
  "assemble [] curW seq = seq"
| "assemble (t # ts) curW seq =
     (if t > 9 then (case pad curW t seq of (curW', seq') \<Rightarrow> assemble ts curW' seq')
      else assemble ts (curW + 1) (seq @ [t]))"

text \<open>\<^verbatim>\<open>while p < seqLen and seq[p] == -1: p += 1\<close>; the value is the final \<open>p\<close>.\<close>

function scan :: "int list \<Rightarrow> nat \<Rightarrow> nat" where
  "scan seq p = (if p < length seq \<and> seq ! p = - 1 then scan seq (p + 1) else p)"
  by pat_completeness auto
termination
  by (relation "measure (\<lambda>(seq, p). length seq - p)") auto

declare scan.simps [simp del]

text \<open>
  The \<^verbatim>\<open>if seq[0] > 0 and len(seq) > 1 and seq[1] == -1\<close> block. Reading \<^verbatim>\<open>seq[0]\<close>
  of an empty list and writing \<^verbatim>\<open>seq[p - 1]\<close> past the end raise \<^verbatim>\<open>IndexError\<close>
  (\<open>p\<close> starts at 1, so \<open>p - 1\<close> is never negative).
\<close>

definition fixup :: "int list \<Rightarrow> py_error + int list" where
  "fixup seq =
     (if seq = [] then Inl IndexError
      else if seq ! 0 > 0 \<and> length seq > 1 \<and> seq ! 1 = - 1 then
        (let p = scan seq 1 in
         if p - 1 < length seq then Inr ((seq[p - 1 := seq ! 0])[0 := 0])
         else Inl IndexError)
      else Inr seq)"

text \<open>\<^verbatim>\<open>"".join([str(n if n >= 0 else 0) for n in seq[::-1] ])\<close>.\<close>

definition render :: "int list \<Rightarrow> pystr" where
  "render seq = concat (map (\<lambda>n. py_str (if n \<ge> 0 then n else 0)) (rev seq))"

text \<open>
  The function returns the integer \<open>-1\<close> when \<^verbatim>\<open>tmp\<close> is empty, and a string
  otherwise; an uncaught \<^verbatim>\<open>IndexError\<close> is the left summand.
\<close>

definition cn2an :: "pystr \<Rightarrow> py_error + pyval" where
  "cn2an chinese_number =
     (let tmp = tokenize chinese_number in
      if tmp = [] then Inr (PyInt (- 1))
      else
        (case fixup (assemble (normalize_units tmp []) 0 []) of
           Inl e \<Rightarrow> Inl e
         | Inr seq \<Rightarrow> Inr (PyStr (render seq))))"

section \<open>The vocabulary of the specification\<close>




text \<open>
  Two characters that differ at most in the case of an ASCII letter, the letters of
  every key of \<open>EN_NUM\<close> and \<open>EN_UNIT\<close>.
\<close>

definition same_letter :: "cp \<Rightarrow> cp \<Rightarrow> bool" where
  "same_letter a b \<longleftrightarrow> a = b \<or> (a < 128 \<and> b < 128 \<and> ascii_lower a = ascii_lower b)"

text \<open>
  The entry of the lowering table for a character that \<^verbatim>\<open>lower()\<close> leaves as it is.
  One such character is U+017F, the Latin small letter long s: it is a lower-case letter
  already, and its upper-case form is the ASCII letter \<open>S\<close>, so that
  \<^verbatim>\<open>upper()\<close> of the three characters U+017F \<open>i\<close> \<open>x\<close> is \<open>SIX\<close>.
\<close>

definition lower_kept :: "cp \<Rightarrow> pystr" where
  "lower_kept c = [c]"

text \<open>
  A character that the first loop of \<open>cn2an\<close> keeps: a key of the coefficient table, a
  key of the scale table, or a decimal digit.
\<close>

definition recognized :: "cp \<Rightarrow> bool" where
  "recognized d \<longleftrightarrow>
     map_of CN_NUM d \<noteq> None \<or> map_of CN_UNIT d \<noteq> None \<or> decimal_value d \<noteq> None"

text \<open>The same with the specification's third case, an ASCII digit.\<close>

definition spec_recognized :: "cp \<Rightarrow> bool" where
  "spec_recognized d \<longleftrightarrow>
     map_of CN_NUM d \<noteq> None \<or> map_of CN_UNIT d \<noteq> None \<or> (48 \<le> d \<and> d \<le> 57)"

section \<open>Facts about the tables and the string methods\<close>

lemma EN_NUM_nonneg: "map_of EN_NUM w = Some v \<Longrightarrow> 0 \<le> v"
  by (drule map_of_SomeD) (auto simp: EN_NUM_def)

lemma EN_UNIT_nonneg: "map_of EN_UNIT w = Some v \<Longrightarrow> 0 \<le> v"
  by (drule map_of_SomeD) (auto simp: EN_UNIT_def)

lemma AR_NUM_nonneg: "map_of AR_NUM w = Some v \<Longrightarrow> 0 \<le> v"
  by (drule map_of_SomeD) (auto simp: AR_NUM_def)

lemma CN_NUM_range: "map_of CN_NUM d = Some v \<Longrightarrow> 0 \<le> v \<and> v \<le> 9"
  by (drule map_of_SomeD) (auto simp: CN_NUM_def)

lemma CN_UNIT_nonneg: "map_of CN_UNIT d = Some v \<Longrightarrow> 0 \<le> v"
  by (drule map_of_SomeD) (auto simp: CN_UNIT_def)

lemma decimal_value_nonneg: "decimal_value d = Some v \<Longrightarrow> 0 \<le> v"
  by (auto simp: decimal_value_def split: option.splits)

lemma classify_nonneg: "classify d = Some v \<Longrightarrow> 0 \<le> v"
  using CN_NUM_range [of d v] CN_UNIT_nonneg [of d v] decimal_value_nonneg [of d v]
  by (auto simp: classify_def split: option.splits)

lemma recognized_iff: "recognized d \<longleftrightarrow> classify d \<noteq> None"
  by (auto simp: recognized_def classify_def split: option.splits)

lemma split_from_spaces: "\<forall>c\<in>set s. isspace c \<Longrightarrow> split_from [] s = []"
  by (induction s) auto

lemma str_split_spaces: "\<forall>c\<in>set s. isspace c \<Longrightarrow> str_split s = []"
  by (simp add: str_split_def split_from_spaces)

lemma str_lower_fixed: "\<forall>c\<in>set s. lower_cp ul c = [c] \<Longrightarrow> str_lower ul s = s"
  by (induction s) (auto simp: str_lower_def)

lemma isspace_32: "isspace 32"
  by (simp add: isspace_def)

lemma str_replace_spaces:
  "\<forall>c\<in>set s. isspace c \<Longrightarrow> \<forall>c\<in>set (str_replace 45 32 s). isspace c"
  by (auto simp: str_replace_def isspace_32)

lemma en_words_spaces:
  assumes "\<forall>c\<in>set s. isspace c \<and> lower_cp ul c = [c]"
  shows "en_words ul s = []"
proof -
  from assms have "str_lower ul s = s"
    by (simp add: str_lower_fixed)
  moreover from assms have "\<forall>c\<in>set s. isspace c"
    by simp
  then have "\<forall>c\<in>set (str_replace 45 32 s). isspace c"
    by (rule str_replace_spaces)
  ultimately show ?thesis
    by (simp add: en_words_def str_split_spaces)
qed

subsection \<open>The accumulator loops\<close>





lemma en_loop_range:
  "0 \<le> cur \<Longrightarrow> 0 \<le> res \<Longrightarrow> 0 \<le> en_loop ws cur res \<or> en_loop ws cur res = - 1"
proof (induction ws arbitrary: cur res)
  case Nil
  then show ?case by simp
next
  case (Cons w ws)
  show ?case
  proof (cases "map_of EN_NUM w")
    case (Some v)
    then have "0 \<le> v" by (rule EN_NUM_nonneg)
    with Cons.prems have "0 \<le> cur + v" by simp
    from Cons.IH [OF this Cons.prems(2)] Some show ?thesis by simp
  next
    case None
    show ?thesis
    proof (cases "map_of EN_UNIT w")
      case (Some v)
      then have v: "0 \<le> v" by (rule EN_UNIT_nonneg)
      with Cons.prems have a: "0 \<le> cur + v" by simp
      from v Cons.prems have b: "0 \<le> res + (if cur = 0 then 1 else cur) * v" by simp
      from Cons.IH [OF a Cons.prems(2)] Cons.IH [OF order_refl b] None Some
      show ?thesis by simp
    next
      case none: None
      from Cons.IH [OF Cons.prems] None none show ?thesis by simp
    qed
  qed
qed

lemma ar_loop_range:
  "0 \<le> cur \<Longrightarrow> 0 \<le> res \<Longrightarrow> 0 \<le> ar_loop ws cur res \<or> ar_loop ws cur res = - 1"
proof (induction ws cur res rule: ar_loop.induct)
  case (1 cur res)
  then show ?case by simp
next
  case (2 w rest cur res)
  show ?case
  proof (cases "map_of AR_NUM (str_join [32] (take 2 (w # rest)))")
    case (Some v)
    then have "0 \<le> v" by (rule AR_NUM_nonneg)
    with "2.prems" have "0 \<le> cur + v" by simp
    from "2.IH"(4) [OF Some this "2.prems"(2)] Some show ?thesis by simp
  next
    case None
    show ?thesis
    proof (cases "map_of AR_NUM w")
      case (Some v)
      then have v: "0 \<le> v" by (rule AR_NUM_nonneg)
      show ?thesis
      proof (cases "1000 \<le> v")
        case True
        from v "2.prems" have "0 \<le> res + (if cur = 0 then 1 else cur) * v" by simp
        from "2.IH"(2) [OF None Some True order_refl this] None Some True
        show ?thesis by simp
      next
        case False
        from v "2.prems" have "0 \<le> cur + v" by simp
        from "2.IH"(3) [OF None Some False this "2.prems"(2)] None Some False
        show ?thesis by simp
      qed
    next
      case none: None
      show ?thesis
      proof (cases "w = AR_CONJUNCTION")
        case True
        from "2.IH"(1) [OF None none True "2.prems"] None none True
        show ?thesis by simp
      next
        case False
        with None none show ?thesis by simp
      qed
    qed
  qed
qed

lemma lower_cp_same: "same_letter a b \<Longrightarrow> lower_cp ul a = lower_cp ul b"
  by (auto simp: same_letter_def lower_cp_def)

lemma str_lower_same: "list_all2 same_letter s s' \<Longrightarrow> str_lower ul s = str_lower ul s'"
  by (induction rule: list_all2_induct) (auto simp: str_lower_def lower_cp_same)

lemma en_words_hyphen: "en_words ul (a @ 45 # b) = en_words ul (a @ 32 # b)"
  by (simp add: en_words_def str_lower_def str_replace_def lower_cp_def ascii_lower_def)

lemma map_of_list_all: "map_of T w = Some v \<Longrightarrow> list_all P T \<Longrightarrow> P (w, v)"
  by (auto dest: map_of_SomeD simp: list_all_iff)

lemma EN_UNIT_keys: "list_all (\<lambda>(k, v). map_of EN_NUM k = None) EN_UNIT"
  by (simp add: EN_UNIT_def EN_NUM_def cps_def)

lemma EN_UNIT_not_NUM: "map_of EN_UNIT w = Some v \<Longrightarrow> map_of EN_NUM w = None"
  using map_of_list_all [OF _ EN_UNIT_keys, of w v] by simp

lemma AR_NUM_keys:
  "list_all (\<lambda>(k, v). v < 100 \<or>
      list_all (\<lambda>(k', v'). take (Suc (length k)) k' \<noteq> k @ [32]) AR_NUM) AR_NUM"
  by (simp add: AR_NUM_def)

lemma AR_hundreds_up:
  assumes "map_of AR_NUM w = Some v" and "100 \<le> v"
  shows "map_of AR_NUM (w @ 32 # u) = None"
proof (rule ccontr)
  assume "map_of AR_NUM (w @ 32 # u) \<noteq> None"
  then obtain v' where "map_of AR_NUM (w @ 32 # u) = Some v'" by auto
  then have mem: "(w @ 32 # u, v') \<in> set AR_NUM" by (rule map_of_SomeD)
  from map_of_list_all [OF assms(1) AR_NUM_keys] assms(2)
  have "list_all (\<lambda>(k', v'). take (Suc (length w)) k' \<noteq> w @ [32]) AR_NUM" by simp
  with mem have "take (Suc (length w)) (w @ 32 # u) \<noteq> w @ [32]"
    by (auto simp: list_all_iff)
  then show False by simp
qed

subsection \<open>The stages of the positional converter\<close>

lemma map_filter_recognized:
  "List.map_filter classify (filter recognized xs) = List.map_filter classify xs"
  by (simp add: List.map_filter_def recognized_iff)

lemma tokenize_filter: "tokenize (filter recognized x) = tokenize x"
  by (simp add: tokenize_def rev_filter map_filter_recognized)

lemma tokenize_empty_iff: "tokenize x = [] \<longleftrightarrow> (\<forall>d\<in>set x. \<not> recognized d)"
  by (auto simp: tokenize_def List.map_filter_def recognized_iff filter_empty_conv)

lemma cn2an_sentinel_iff: "cn2an x = Inr (PyInt (- 1)) \<longleftrightarrow> tokenize x = []"
  by (simp add: cn2an_def Let_def split: sum.splits)

lemma tokenize_nonneg: "t \<in> set (tokenize x) \<Longrightarrow> 0 \<le> t"
  by (auto simp: tokenize_def List.map_filter_def dest: classify_nonneg)

lemma normalize_last:
  "tmp \<noteq> [] \<Longrightarrow> \<forall>t\<in>set tmp. 0 \<le> t \<Longrightarrow>
     normalize_units tmp tmp2 \<noteq> [] \<and> 0 \<le> last (normalize_units tmp tmp2) \<and> last (normalize_units tmp tmp2) \<le> 9"
  by (induction tmp tmp2 rule: normalize_units.induct) auto

lemma assemble_step: "\<exists>c s. assemble (t # ts) curW seq = assemble ts c s"
  by (cases "pad curW t seq") auto

lemma assemble_last:
  "ts \<noteq> [] \<Longrightarrow> last ts \<le> 9 \<Longrightarrow>
     assemble ts curW seq \<noteq> [] \<and> last (assemble ts curW seq) = last ts"
proof (induction ts arbitrary: curW seq)
  case Nil
  then show ?case by simp
next
  case (Cons t ts)
  show ?case
  proof (cases "ts = []")
    case True
    with Cons.prems show ?thesis by simp
  next
    case False
    with Cons.prems have "last ts \<le> 9" by simp
    with False have ih: "\<And>c s. assemble ts c s \<noteq> [] \<and> last (assemble ts c s) = last ts"
      by (rule Cons.IH)
    obtain c s where "assemble (t # ts) curW seq = assemble ts c s"
      using assemble_step by blast
    with ih [of c s] False show ?thesis by simp
  qed
qed

lemma scan_bound: "p < length seq \<Longrightarrow> last seq \<noteq> - 1 \<Longrightarrow> scan seq p < length seq"
proof (induction seq p rule: scan.induct)
  case (1 seq p)
  show ?case
  proof (cases "seq ! p = - 1")
    case True
    have "p + 1 \<noteq> length seq"
    proof
      assume "p + 1 = length seq"
      then have "last seq = seq ! p"
        by (metis "1.prems"(1) add_diff_cancel_right' last_conv_nth list.size(3) not_less_zero)
      with True "1.prems"(2) show False by simp
    qed
    with "1.prems"(1) have "p + 1 < length seq" by simp
    with "1.IH" True "1.prems" have "scan seq (p + 1) < length seq" by simp
    with True "1.prems"(1) show ?thesis by (simp add: scan.simps [of seq p])
  next
    case False
    with "1.prems"(1) show ?thesis by (simp add: scan.simps [of seq p])
  qed
qed

lemma fixup_total: "seq \<noteq> [] \<Longrightarrow> last seq \<noteq> - 1 \<Longrightarrow> \<exists>seq'. fixup seq = Inr seq'"
proof -
  assume ne: "seq \<noteq> []" and l: "last seq \<noteq> - 1"
  show ?thesis
  proof (cases "seq ! 0 > 0 \<and> length seq > 1 \<and> seq ! 1 = - 1")
    case True
    then have "scan seq 1 < length seq" using l by (simp add: scan_bound)
    then have "scan seq 1 - 1 < length seq" by simp
    with ne True show ?thesis by (simp add: fixup_def Let_def)
  next
    case False
    with ne show ?thesis by (auto simp: fixup_def)
  qed
qed

lemma digits_of_range: "c \<in> set (digits_of n) \<Longrightarrow> 48 \<le> c \<and> c \<le> 57"
proof (induction n arbitrary: c rule: digits_of.induct)
  case (1 n)
  show ?case
  proof (cases "n < 10")
    case True
    with "1.prems" show ?thesis by (simp add: digits_of.simps [of n])
  next
    case False
    with "1.prems" have "c \<in> set (digits_of (n div 10)) \<or> c = 48 + n mod 10"
      by (auto simp: digits_of.simps [of n])
    then show ?thesis
    proof
      assume "c \<in> set (digits_of (n div 10))"
      with False show ?thesis by (rule "1.IH")
    next
      assume "c = 48 + n mod 10"
      then show ?thesis by simp
    qed
  qed
qed

lemma render_range: "c \<in> set (render seq) \<Longrightarrow> 48 \<le> c \<and> c \<le> 57"
  by (auto simp: render_def py_str_def dest: digits_of_range split: if_splits)

lemma scan_stop: "scan seq p < length seq \<Longrightarrow> seq ! scan seq p \<noteq> - 1"
proof (induction seq p rule: scan.induct)
  case (1 seq p)
  show ?case
  proof (cases "p < length seq \<and> seq ! p = - 1")
    case True
    then have eq: "scan seq p = scan seq (p + 1)" by (simp add: scan.simps [of seq p])
    with "1.prems" have "scan seq (p + 1) < length seq" by simp
    with True have "seq ! scan seq (p + 1) \<noteq> - 1" by (intro "1.IH") simp_all
    with eq show ?thesis by simp
  next
    case False
    then have eq: "scan seq p = p" by (subst scan.simps) auto
    with "1.prems" False show ?thesis by simp
  qed
qed

lemma slots_last:
  assumes "\<exists>d\<in>set x. recognized d"
  shows "assemble (normalize_units (tokenize x) []) 0 [] \<noteq> []"
    and "0 \<le> last (assemble (normalize_units (tokenize x) []) 0 [])"
    and "last (assemble (normalize_units (tokenize x) []) 0 []) \<le> 9"
proof -
  from assms have ne: "tokenize x \<noteq> []" by (simp add: tokenize_empty_iff)
  have "\<forall>t\<in>set (tokenize x). 0 \<le> t" by (simp add: tokenize_nonneg)
  with ne have n: "normalize_units (tokenize x) [] \<noteq> [] \<and> 0 \<le> last (normalize_units (tokenize x) []) \<and>
      last (normalize_units (tokenize x) []) \<le> 9"
    by (rule normalize_last)
  then have a: "assemble (normalize_units (tokenize x) []) 0 [] \<noteq> [] \<and>
      last (assemble (normalize_units (tokenize x) []) 0 []) = last (normalize_units (tokenize x) [])"
    by (intro assemble_last) simp_all
  from a show "assemble (normalize_units (tokenize x) []) 0 [] \<noteq> []" by simp
  from a n show "0 \<le> last (assemble (normalize_units (tokenize x) []) 0 [])" by simp
  from a n show "last (assemble (normalize_units (tokenize x) []) 0 []) \<le> 9" by simp
qed

lemma cn2an_returns_string:
  assumes "\<exists>d\<in>set x. recognized d"
  shows "\<exists>str. cn2an x = Inr (PyStr str)"
proof -
  from assms have ne: "tokenize x \<noteq> []" by (simp add: tokenize_empty_iff)
  from slots_last [OF assms]
  have "\<exists>seq'. fixup (assemble (normalize_units (tokenize x) []) 0 []) = Inr seq'"
    by (intro fixup_total) simp_all
  with ne show ?thesis by (auto simp: cn2an_def Let_def)
qed

lemma cn2an_string_digits:
  "cn2an x = Inr (PyStr str) \<Longrightarrow> c \<in> set str \<Longrightarrow> 48 \<le> c \<and> c \<le> 57"
  by (auto simp: cn2an_def Let_def split: if_splits sum.splits dest: render_range)

text \<open>A string of digit characters only: every loop copies, and the fixup does not run.\<close>

lemma normalize_digits: "\<forall>t\<in>set ts. t \<le> 9 \<Longrightarrow> normalize_units ts tmp2 = tmp2 @ ts"
  by (induction ts tmp2 rule: normalize_units.induct) auto

lemma assemble_digits: "\<forall>t\<in>set ts. t \<le> 9 \<Longrightarrow> assemble ts curW seq = seq @ ts"
  by (induction ts arbitrary: curW seq) auto

lemma fixup_digits: "seq \<noteq> [] \<Longrightarrow> \<forall>t\<in>set seq. 0 \<le> t \<Longrightarrow> fixup seq = Inr seq"
proof -
  assume ne: "seq \<noteq> []" and nn: "\<forall>t\<in>set seq. 0 \<le> t"
  have "seq ! 1 \<noteq> - 1" if "1 < length seq"
  proof -
    from that have "seq ! 1 \<in> set seq" by (rule nth_mem)
    with nn have "0 \<le> seq ! 1" by blast
    then show ?thesis by simp
  qed
  with ne show ?thesis by (auto simp: fixup_def)
qed

lemma py_str_digit: "0 \<le> n \<Longrightarrow> n \<le> 9 \<Longrightarrow> py_str n = [48 + nat n]"
proof -
  assume "0 \<le> n" and "n \<le> 9"
  then have "nat n < 10" and "\<not> n < 0" by simp_all
  then show ?thesis by (simp add: py_str_def digits_of.simps [of "nat n"])
qed

lemma render_digits:
  "\<forall>n\<in>set seq. 0 \<le> n \<and> n \<le> 9 \<Longrightarrow> render seq = map (\<lambda>n. 48 + nat n) (rev seq)"
proof (induction seq)
  case Nil
  then show ?case by (simp add: render_def)
next
  case (Cons n seq)
  then have "render seq = map (\<lambda>n. 48 + nat n) (rev seq)" by simp
  moreover from Cons.prems have "py_str n = [48 + nat n]" by (simp add: py_str_digit)
  moreover from Cons.prems have "0 \<le> n" by simp
  ultimately show ?case by (simp add: render_def)
qed

lemma tokenize_digits:
  "\<forall>d\<in>set x. classify d \<noteq> None \<Longrightarrow> tokenize x = map (\<lambda>d. the (classify d)) (rev x)"
  by (induction x) (auto simp: tokenize_def List.map_filter_def)

lemma cn2an_digits_only:
  assumes "x \<noteq> []" and "\<forall>d\<in>set x. \<exists>v. classify d = Some v \<and> v \<le> 9"
  shows "cn2an x = Inr (PyStr (map (\<lambda>d. 48 + nat (the (classify d))) x))"
proof -
  let ?ts = "map (\<lambda>d. the (classify d)) (rev x)"
  from assms(2) have tok: "tokenize x = ?ts"
    by (intro tokenize_digits) auto
  have "0 \<le> the (classify d) \<and> the (classify d) \<le> 9" if "d \<in> set x" for d
  proof -
    from that assms(2) obtain v where "classify d = Some v" and "v \<le> 9" by blast
    with classify_nonneg [of d v] show ?thesis by simp
  qed
  then have range: "\<forall>t\<in>set ?ts. 0 \<le> t \<and> t \<le> 9"
    by auto
  then have "normalize_units ?ts [] = ?ts"
    by (simp add: normalize_digits)
  moreover from range have "assemble ?ts 0 [] = ?ts"
    by (simp add: assemble_digits)
  moreover from assms(1) range have "fixup ?ts = Inr ?ts"
    by (intro fixup_digits) simp_all
  moreover from range have "render ?ts = map (\<lambda>n. 48 + nat n) (rev ?ts)"
    by (rule render_digits)
  ultimately show ?thesis
    using assms(1) tok by (simp add: cn2an_def rev_map o_def)
qed

lemma cn2an_ascii_digits:
  assumes "x \<noteq> []" and "\<forall>d\<in>set x. 48 \<le> d \<and> d \<le> 57"
  shows "cn2an x = Inr (PyStr x)"
proof -
  have c: "classify d = Some (int d - 48)" if "48 \<le> d" and "d \<le> 57" for d
  proof -
    have "list_all (\<lambda>d. classify d = Some (int d - 48)) [48, 49, 50, 51, 52, 53, 54, 55, 56, 57]"
      by (simp add: classify_def CN_NUM_def CN_UNIT_def decimal_value_def DECIMAL_ZEROS_def)
    moreover from that have "d \<in> set [48, 49, 50, 51, 52, 53, 54, 55, 56, 57]"
      by simp arith
    ultimately show ?thesis
      unfolding list_all_iff by blast
  qed
  with assms(2) have "\<forall>d\<in>set x. \<exists>v. classify d = Some v \<and> v \<le> 9" by auto
  with assms(1) have "cn2an x = Inr (PyStr (map (\<lambda>d. 48 + nat (the (classify d))) x))"
    by (rule cn2an_digits_only)
  also from assms(2) c have "map (\<lambda>d. 48 + nat (the (classify d))) x = map (\<lambda>d. d) x"
    by (intro map_cong) auto
  finally show ?thesis by simp
qed

text \<open>The rules that evaluate the three converters on a given string.\<close>

lemmas cn_eval = cn2an_def tokenize_def List.map_filter_def classify_def CN_NUM_def CN_UNIT_def
  pad.simps fixup_def scan.simps render_def py_str_def digits_of.simps cps_def Let_def

lemmas rec_eval = recognized_def spec_recognized_def CN_NUM_def CN_UNIT_def decimal_value_def
  DECIMAL_ZEROS_def

lemmas en_eval = en2an_def en_words_def str_lower_def lower_cp_def ascii_lower_def
  str_replace_def str_split_def cps_def EN_NUM_def EN_UNIT_def isspace_def

lemmas ar_eval = ar2an_def str_split_def isspace_def AR_NUM_def AR_CONJUNCTION_def

section \<open>The claims\<close>

text \<open>
  C1. The specification gives 1350005 for the phrase
  "one million three hundred fifty thousand and five", and so does the comment under
  \<^verbatim>\<open>en2an\<close> in the source. The function returns 1050305 instead: "hundred" is a
  multiplier like any other, so "three hundred" is added to the result (300) before
  "fifty thousand" is (50000), where the phrase means 350 thousand.
\<close>

theorem en2an_million_phrase:
  "en2an ul (cps ''one million three hundred fifty thousand and five'') = 1050305"
  by (simp add: en2an_def en_words_def str_lower_def lower_cp_def ascii_lower_def
      str_replace_def str_split_def cps_def EN_NUM_def EN_UNIT_def isspace_def)

text \<open>
  C2. The claim says that both accumulators treat every word of table value 100 or more
  as a multiplier: the group total, or 1 if it is 0, times the value is added to the
  result and the group total is reset, at every position. \<open>en2an\<close> does. \<open>ar2an\<close>
  does not, in two ways. Its test is \<^verbatim>\<open>value >= 1000\<close>, so the word for 100
  (U+0645 U+0627 U+0626 U+0629) is added to the group like a digit word: after a group
  total of 3 and before the word for 1 the function ends at 104, where the claim's rule
  gives 301; the phrase "three hundred one" as a whole gives 104. And the last word of
  a phrase is looked up by the two-word test, which adds it to the group whatever its
  value: the word for 1000 (U+0623 U+0644 U+0641) as the last word after a group total
  of 5 gives 1005, where the claim's rule gives 5000.
\<close>

theorem ar_multiplier_counterexample:
  "map_of AR_NUM [0x645, 0x627, 0x626, 0x629] = Some 100 \<and>
   ar_loop [ [0x645, 0x627, 0x626, 0x629], [0x648, 0x627, 0x62D, 0x62F] ] 3 0 = 104 \<and>
   ar_loop [ [0x648, 0x627, 0x62D, 0x62F] ] 0 (0 + (if (3::int) = 0 then 1 else 3) * 100) = 301 \<and>
   ar_loop [ [0x645, 0x627, 0x626, 0x629], [0x648, 0x627, 0x62D, 0x62F] ] 3 0 \<noteq>
     ar_loop [ [0x648, 0x627, 0x62D, 0x62F] ] 0 (0 + (if (3::int) = 0 then 1 else 3) * 100) \<and>
   ar2an [0x62B, 0x644, 0x627, 0x62B, 0x629, 32, 0x645, 0x627, 0x626, 0x629, 32,
          0x648, 0x627, 0x62D, 0x62F] = 104 \<and>
   map_of AR_NUM [0x623, 0x644, 0x641] = Some 1000 \<and>
   ar_loop [ [0x623, 0x644, 0x641] ] 5 0 = 1005 \<and>
   ar_loop [] 0 (0 + (if (5::int) = 0 then 1 else 5) * 1000) = 5000 \<and>
   ar_loop [ [0x623, 0x644, 0x641] ] 5 0 \<noteq>
     ar_loop [] 0 (0 + (if (5::int) = 0 then 1 else 5) * 1000) \<and>
   ar2an [0x62E, 0x645, 0x633, 0x629, 32, 0x623, 0x644, 0x641] = 1005"
  by (simp add: ar_eval)

text \<open>
  C2, as the code has it. In \<open>en2an\<close> a word of \<open>EN_UNIT\<close> of value 100 or more, at
  any position (the last included), adds the group total (1 if it is 0) times its value
  to the result and resets the group total. In \<open>ar2an\<close> the multipliers are the
  words of value 1000 or more: such a word, when another word follows it, does the same;
  a word of value 100, 200 or 300, when another word follows it, is added to the group
  total.
\<close>

theorem multiplier_word_step:
  "(map_of EN_UNIT w = Some v \<and> 100 \<le> v \<longrightarrow>
      en_loop (w # ws) cur res = en_loop ws 0 (res + (if cur = 0 then 1 else cur) * v)) \<and>
   (map_of AR_NUM w = Some v \<and> 1000 \<le> v \<longrightarrow>
      ar_loop (w # u # us) cur res =
      ar_loop (u # us) 0 (res + (if cur = 0 then 1 else cur) * v)) \<and>
   (map_of AR_NUM w = Some v \<and> 100 \<le> v \<and> v < 1000 \<longrightarrow>
      ar_loop (w # u # us) cur res = ar_loop (u # us) (cur + v) res)"
proof -
  have en: "en_loop (w # ws) cur res = en_loop ws 0 (res + (if cur = 0 then 1 else cur) * v)"
    if "map_of EN_UNIT w = Some v" and "100 \<le> v"
    using that EN_UNIT_not_NUM [OF that(1)] by simp
  have ar: "ar_loop (w # u # us) cur res =
      ar_loop (u # us) 0 (res + (if cur = 0 then 1 else cur) * v)"
    if "map_of AR_NUM w = Some v" and "1000 \<le> v"
  proof -
    from that have "map_of AR_NUM (w @ 32 # u) = None"
      by (intro AR_hundreds_up [of w v]) simp_all
    with that show ?thesis by simp
  qed
  have ar_add: "ar_loop (w # u # us) cur res = ar_loop (u # us) (cur + v) res"
    if "map_of AR_NUM w = Some v" and "100 \<le> v" and "v < 1000"
  proof -
    from that have "map_of AR_NUM (w @ 32 # u) = None"
      by (intro AR_hundreds_up [of w v]) simp_all
    with that show ?thesis by simp
  qed
  from en ar ar_add show ?thesis by blast
qed

theorem multiplier_word_step_witness:
  "en_loop [cps ''hundred''] 3 2000 = en_loop [] 0 (2000 + 3 * 100) \<and>
   ar_loop [ [0x623, 0x644, 0x641], [0x62E, 0x645, 0x633, 0x629] ] 2 0 =
     ar_loop [ [0x62E, 0x645, 0x633, 0x629] ] 0 (0 + 2 * 1000) \<and>
   ar_loop [ [0x645, 0x627, 0x626, 0x629], [0x648, 0x627, 0x62D, 0x62F] ] 3 0 =
     ar_loop [ [0x648, 0x627, 0x62D, 0x62F] ] (3 + 100) 0"
proof -
  have h1: "map_of EN_UNIT (cps ''hundred'') = Some 100"
    by (simp add: EN_UNIT_def cps_def)
  have h2: "map_of AR_NUM [0x623, 0x644, 0x641] = Some 1000"
    by (simp add: AR_NUM_def)
  have h3: "map_of AR_NUM [0x645, 0x627, 0x626, 0x629] = Some 100"
    by (simp add: AR_NUM_def)
  from h1 multiplier_word_step [of "cps ''hundred''" 100 "[]" 3 2000]
  have "en_loop [cps ''hundred''] 3 2000 = en_loop [] 0 (2000 + 3 * 100)"
    by simp
  moreover from h2
    multiplier_word_step [of "[0x623, 0x644, 0x641]" 1000 _ 2 0 "[0x62E, 0x645, 0x633, 0x629]" "[]"]
  have "ar_loop [ [0x623, 0x644, 0x641], [0x62E, 0x645, 0x633, 0x629] ] 2 0 =
     ar_loop [ [0x62E, 0x645, 0x633, 0x629] ] 0 (0 + 2 * 1000)"
    by simp
  moreover from h3
    multiplier_word_step [of "[0x645, 0x627, 0x626, 0x629]" 100 _ 3 0 "[0x648, 0x627, 0x62D, 0x62F]" "[]"]
  have "ar_loop [ [0x645, 0x627, 0x626, 0x629], [0x648, 0x627, 0x62D, 0x62F] ] 3 0 =
     ar_loop [ [0x648, 0x627, 0x62D, 0x62F] ] (3 + 100) 0"
    by simp
  ultimately show ?thesis by blast
qed



text \<open>
  C4. \<open>cn2an\<close> returns the failure value \<open>-1\<close> exactly when no character of the input
  is a key of the coefficient table, a key of the scale table or a decimal digit; the
  empty string is such an input. In that case \<^verbatim>\<open>tmp\<close> is empty, and the function
  returns at the test of \<^verbatim>\<open>tmp\<close>, before the later loops.
\<close>

theorem cn2an_fails_iff:
  "(cn2an x = Inr (PyInt (- 1)) \<longleftrightarrow> (\<forall>d\<in>set x. \<not> recognized d)) \<and>
   cn2an [] = Inr (PyInt (- 1)) \<and>
   ((\<forall>d\<in>set x. \<not> recognized d) \<longrightarrow> tokenize x = [])"
proof -
  have "cn2an x = Inr (PyInt (- 1)) \<longleftrightarrow> tokenize x = []"
    by (rule cn2an_sentinel_iff)
  also have "\<dots> \<longleftrightarrow> (\<forall>d\<in>set x. \<not> recognized d)"
    by (rule tokenize_empty_iff)
  finally have "cn2an x = Inr (PyInt (- 1)) \<longleftrightarrow> (\<forall>d\<in>set x. \<not> recognized d)" .
  moreover have "tokenize [] = []"
    by (simp add: tokenize_def List.map_filter_def)
  then have "cn2an [] = Inr (PyInt (- 1))"
    by (simp add: cn2an_sentinel_iff)
  moreover have "(\<forall>d\<in>set x. \<not> recognized d) \<longrightarrow> tokenize x = []"
    by (simp add: tokenize_empty_iff)
  ultimately show ?thesis by blast
qed

theorem cn2an_fails_iff_witness:
  "cn2an (cps ''n/a, ?'') = Inr (PyInt (- 1)) \<and>
   cn2an (cps ''no. 7'') \<noteq> Inr (PyInt (- 1))"
proof -
  have "\<forall>d\<in>set (cps ''n/a, ?''). \<not> recognized d"
    by (simp add: cps_def rec_eval)
  with cn2an_fails_iff [of "cps ''n/a, ?''"]
  have a: "cn2an (cps ''n/a, ?'') = Inr (PyInt (- 1))"
    by blast
  have "\<not> (\<forall>d\<in>set (cps ''no. 7''). \<not> recognized d)"
    by (simp add: cps_def rec_eval)
  with cn2an_fails_iff [of "cps ''no. 7''"]
  have "cn2an (cps ''no. 7'') \<noteq> Inr (PyInt (- 1))"
    by blast
  with a show ?thesis by simp
qed

text \<open>
  C5. The four examples of the positional converter: the characters U+4E09 three times
  give "333", U+5341 U+4E00 gives "11", U+5341 alone gives "10", and
  U+4E00 U+767E U+4E8C U+5341 U+4E09 gives "123". The first is an instance of a general
  fact: a non-empty string of ASCII digits is returned unchanged, and a non-empty string
  of coefficient characters and decimal digits is returned digit by digit.
\<close>

theorem cn2an_examples:
  "cn2an [0x4E09, 0x4E09, 0x4E09] = Inr (PyStr (cps ''333'')) \<and>
   cn2an [0x5341, 0x4E00] = Inr (PyStr (cps ''11'')) \<and>
   cn2an [0x5341] = Inr (PyStr (cps ''10'')) \<and>
   cn2an [0x4E00, 0x767E, 0x4E8C, 0x5341, 0x4E09] = Inr (PyStr (cps ''123'')) \<and>
   (x \<noteq> [] \<and> (\<forall>d\<in>set x. 48 \<le> d \<and> d \<le> 57) \<longrightarrow> cn2an x = Inr (PyStr x)) \<and>
   (x \<noteq> [] \<and> (\<forall>d\<in>set x. \<exists>v. classify d = Some v \<and> v \<le> 9) \<longrightarrow>
      cn2an x = Inr (PyStr (map (\<lambda>d. 48 + nat (the (classify d))) x)))"
proof -
  have "cn2an [0x4E09, 0x4E09, 0x4E09] = Inr (PyStr (cps ''333''))"
    by (simp add: cn_eval)
  moreover have "cn2an [0x5341, 0x4E00] = Inr (PyStr (cps ''11''))"
    by (simp add: cn_eval)
  moreover have "cn2an [0x5341] = Inr (PyStr (cps ''10''))"
    by (simp add: cn_eval)
  moreover have "cn2an [0x4E00, 0x767E, 0x4E8C, 0x5341, 0x4E09] = Inr (PyStr (cps ''123''))"
    by (simp add: cn_eval)
  ultimately show ?thesis
    using cn2an_ascii_digits [of x] cn2an_digits_only [of x] by blast
qed

theorem cn2an_examples_witness:
  "cn2an (cps ''2024'') = Inr (PyStr (cps ''2024''))"
proof -
  have "cps ''2024'' \<noteq> [] \<and> (\<forall>d\<in>set (cps ''2024''). 48 \<le> d \<and> d \<le> 57)"
    by (simp add: cps_def)
  with cn2an_examples [of "cps ''2024''"] show ?thesis
    by blast
qed

text \<open>
  C6. \<open>en2an\<close> and \<open>ar2an\<close> return a non-negative integer or \<open>-1\<close>, and every
  character of a string that \<open>cn2an\<close> returns is one of \<open>0\<close>..\<open>9\<close> (code points
  48 to 57).
\<close>

theorem results_well_formed:
  "(0 \<le> en2an ul s \<or> en2an ul s = - 1) \<and>
   (0 \<le> ar2an s \<or> ar2an s = - 1) \<and>
   (cn2an x = Inr (PyStr str) \<longrightarrow> (\<forall>c\<in>set str. 48 \<le> c \<and> c \<le> 57))"
proof -
  have "0 \<le> en2an ul s \<or> en2an ul s = - 1"
    unfolding en2an_def by (rule en_loop_range) simp_all
  moreover have "0 \<le> ar2an s \<or> ar2an s = - 1"
    unfolding ar2an_def by (rule ar_loop_range) simp_all
  moreover have "cn2an x = Inr (PyStr str) \<longrightarrow> (\<forall>c\<in>set str. 48 \<le> c \<and> c \<le> 57)"
    using cn2an_string_digits [of x str] by blast
  ultimately show ?thesis by blast
qed

theorem results_well_formed_witness:
  "cn2an [0x4E00, 0x767E, 0x4E09] = Inr (PyStr (cps ''130'')) \<and>
   list_all (\<lambda>c. 48 \<le> c \<and> c \<le> 57) (cps ''130'')"
proof -
  have a: "cn2an [0x4E00, 0x767E, 0x4E09] = Inr (PyStr (cps ''130''))"
    by (simp add: cn_eval)
  with results_well_formed [of _ _ "[0x4E00, 0x767E, 0x4E09]" "cps ''130''"]
  have "\<forall>c\<in>set (cps ''130''). 48 \<le> c \<and> c \<le> 57"
    by blast
  with a show ?thesis by (simp add: list_all_iff)
qed

text \<open>
  C7. The claim deletes every character that is in neither table and is not an ASCII
  digit, and says that the result stays the same. The third branch of the first loop
  is \<^verbatim>\<open>d.isnumeric()\<close> with \<^verbatim>\<open>int(d)\<close>, which accepts every decimal digit of
  Unicode: for the full-width digit three (U+FF13) \<open>cn2an\<close> returns "3", and after
  the deletion the string is empty and \<open>cn2an\<close> returns \<open>-1\<close>.
\<close>

theorem cn2an_filter_ascii_counterexample:
  "cn2an [0xFF13] = Inr (PyStr (cps ''3'')) \<and>
   filter spec_recognized [0xFF13] = [] \<and>
   cn2an (filter spec_recognized [0xFF13]) = Inr (PyInt (- 1)) \<and>
   cn2an [0xFF13] \<noteq> cn2an (filter spec_recognized [0xFF13])"
  by (simp add: cn_eval rec_eval)

text \<open>
  C7, as the code has it. Deleting every character that is in neither table and is not
  a decimal digit (a character that \<^verbatim>\<open>int\<close> accepts) does not change the result of
  \<open>cn2an\<close>.
\<close>

theorem cn2an_filter_recognized:
  "cn2an x = cn2an (filter recognized x)"
proof -
  have "tokenize (filter recognized x) = tokenize x"
    by (rule tokenize_filter)
  then show ?thesis
    by (simp add: cn2an_def)
qed

theorem cn2an_filter_recognized_witness:
  "cn2an [0x4E00, 0x2C, 0x767E, 0x20, 0xFF13, 0x5143] = cn2an [0x4E00, 0x767E, 0xFF13]"
proof -
  have "filter recognized [0x4E00, 0x2C, 0x767E, 0x20, 0xFF13, 0x5143] = [0x4E00, 0x767E, 0xFF13]"
    by (simp add: rec_eval)
  with cn2an_filter_recognized [of "[0x4E00, 0x2C, 0x767E, 0x20, 0xFF13, 0x5143]"]
  show ?thesis by simp
qed

text \<open>
  C8. The claim says that \<open>en2an\<close> gives the same result when the case of any letters
  of a phrase is changed. It does not for a letter outside ASCII whose other case is an
  ASCII letter: \<^verbatim>\<open>lower()\<close> leaves U+017F (long s) as it is, so the word U+017F
  \<open>i\<close> \<open>x\<close> is unknown and the result is \<open>-1\<close>, while the same word in upper case is
  \<open>SIX\<close>, which \<^verbatim>\<open>lower()\<close> turns into \<open>six\<close>, and the result is 6. The two
  phrases do not differ in the case of ASCII letters only.
\<close>

theorem en2an_case_counterexample:
  "en2an lower_kept [0x17F, 105, 120] = - 1 \<and>
   en2an lower_kept (cps ''SIX'') = 6 \<and>
   en2an lower_kept [0x17F, 105, 120] \<noteq> en2an lower_kept (cps ''SIX'') \<and>
   \<not> list_all2 same_letter [0x17F, 105, 120] (cps ''SIX'')"
  by (simp add: en_eval lower_kept_def same_letter_def)

text \<open>
  C8, as the code has it. \<open>en2an\<close> gives the same result on two phrases that differ
  only in the case of ASCII letters (the letters of every word of the two tables), and
  on a phrase with a hyphen and the same phrase with a space in the place of that
  hyphen.
\<close>

theorem en2an_case_and_hyphen:
  "(list_all2 same_letter s s' \<longrightarrow> en2an ul s = en2an ul s') \<and>
   en2an ul (a @ 45 # b) = en2an ul (a @ 32 # b)"
proof -
  have "en2an ul s = en2an ul s'" if "list_all2 same_letter s s'"
  proof -
    from that have "str_lower ul s = str_lower ul s'"
      by (rule str_lower_same)
    then show ?thesis
      by (simp add: en2an_def en_words_def)
  qed
  moreover have "en2an ul (a @ 45 # b) = en2an ul (a @ 32 # b)"
    by (simp add: en2an_def en_words_hyphen)
  ultimately show ?thesis by blast
qed

theorem en2an_case_and_hyphen_witness:
  "en2an (\<lambda>c. [c]) (cps ''Twenty-THREE'') = en2an (\<lambda>c. [c]) (cps ''twenty three'')"
proof -
  have "list_all2 same_letter (cps ''Twenty-THREE'') (cps ''twenty-three'')"
    by (simp add: cps_def same_letter_def ascii_lower_def)
  with en2an_case_and_hyphen [of "cps ''Twenty-THREE''" "cps ''twenty-three''" "\<lambda>c. [c]"]
  have "en2an (\<lambda>c. [c]) (cps ''Twenty-THREE'') = en2an (\<lambda>c. [c]) (cps ''twenty-three'')"
    by blast
  also have "cps ''twenty-three'' = cps ''twenty'' @ 45 # cps ''three''"
    by (simp add: cps_def)
  also from en2an_case_and_hyphen [of _ _ "\<lambda>c. [c]" "cps ''twenty''" "cps ''three''"]
  have "en2an (\<lambda>c. [c]) (cps ''twenty'' @ 45 # cps ''three'') =
      en2an (\<lambda>c. [c]) (cps ''twenty'' @ 32 # cps ''three'')"
    by blast
  also have "cps ''twenty'' @ 32 # cps ''three'' = cps ''twenty three''"
    by (simp add: cps_def)
  finally show ?thesis .
qed

text \<open>
  C9. On an input with at least one recognized character the slot sequence \<^verbatim>\<open>seq\<close>
  is not empty and its last element is a digit from 0 to 9, not the placeholder
  \<open>-1\<close>. So \<^verbatim>\<open>seq[0]\<close> is in range; when the fixup runs, the scan stops at an
  index \<open>p\<close> inside the list whose slot is not the placeholder, and \<open>p - 1\<close> is in
  range; no \<^verbatim>\<open>IndexError\<close> is raised and \<open>cn2an\<close> returns a string. (Every loop of
  the model is a total function, so the call ends.)
\<close>

theorem cn2an_no_index_error:
  assumes "\<exists>d\<in>set x. recognized d"
  shows "let seq = assemble (normalize_units (tokenize x) []) 0 [] in
     seq \<noteq> [] \<and> 0 \<le> last seq \<and> last seq \<le> 9 \<and>
     (0 < seq ! 0 \<and> 1 < length seq \<and> seq ! 1 = - 1 \<longrightarrow>
        scan seq 1 < length seq \<and> seq ! scan seq 1 \<noteq> - 1 \<and> scan seq 1 - 1 < length seq) \<and>
     (\<exists>seq'. fixup seq = Inr seq') \<and>
     (\<exists>str. cn2an x = Inr (PyStr str))"
proof -
  define seq where "seq = assemble (normalize_units (tokenize x) []) 0 []"
  from slots_last [OF assms] have ne: "seq \<noteq> []" and lo: "0 \<le> last seq" and hi: "last seq \<le> 9"
    by (simp_all add: seq_def)
  from lo have l: "last seq \<noteq> - 1" by simp
  have sc: "scan seq 1 < length seq \<and> seq ! scan seq 1 \<noteq> - 1 \<and> scan seq 1 - 1 < length seq"
    if "1 < length seq"
  proof -
    from that l have "scan seq 1 < length seq" by (rule scan_bound)
    then show ?thesis by (simp add: scan_stop)
  qed
  from ne l have fx: "\<exists>seq'. fixup seq = Inr seq'" by (rule fixup_total)
  from ne lo hi sc fx cn2an_returns_string [OF assms] show ?thesis
    unfolding seq_def [symmetric] Let_def by blast
qed

theorem cn2an_no_index_error_witness:
  "assemble (normalize_units (tokenize [0x4E00, 0x767E, 0x4E09]) []) 0 [] = [3, - 1, 1] \<and>
   scan [3, - 1, 1] 1 < length [3, - 1, 1 :: int] \<and>
   (\<exists>str. cn2an [0x4E00, 0x767E, 0x4E09] = Inr (PyStr str))"
proof -
  have r: "\<exists>d\<in>set [0x4E00, 0x767E, 0x4E09]. recognized d"
    by (simp add: rec_eval)
  have s: "assemble (normalize_units (tokenize [0x4E00, 0x767E, 0x4E09]) []) 0 [] = [3, - 1, 1]"
    by (simp add: cn_eval)
  from cn2an_no_index_error [OF r] show ?thesis
    unfolding s Let_def by simp
qed

text \<open>
  C10. An empty phrase, and a phrase of white space only, has no word: both accumulators
  return 0, which is not the failure value \<open>-1\<close>. (For \<open>en2an\<close> the white space is any
  that \<^verbatim>\<open>lower()\<close> leaves alone, which Python's does for every character without
  case.)
\<close>

theorem empty_phrase_zero:
  "en2an ul [] = 0 \<and> ar2an [] = 0 \<and> en2an ul [] \<noteq> - 1 \<and> ar2an [] \<noteq> - 1 \<and>
   ((\<forall>c\<in>set s. isspace c \<and> lower_cp ul c = [c]) \<longrightarrow> en2an ul s = 0) \<and>
   ((\<forall>c\<in>set s. isspace c) \<longrightarrow> ar2an s = 0)"
proof -
  have "en_words ul [] = []"
    by (simp add: en_words_def str_lower_def str_replace_def str_split_def)
  then have en: "en2an ul [] = 0"
    by (simp add: en2an_def)
  have ar: "ar2an [] = 0"
    by (simp add: ar2an_def str_split_def)
  have en_ws: "(\<forall>c\<in>set s. isspace c \<and> lower_cp ul c = [c]) \<longrightarrow> en2an ul s = 0"
    by (simp add: en2an_def en_words_spaces)
  have ar_ws: "(\<forall>c\<in>set s. isspace c) \<longrightarrow> ar2an s = 0"
    by (simp add: ar2an_def str_split_spaces)
  from en ar en_ws ar_ws show ?thesis
    by simp
qed

theorem empty_phrase_zero_witness:
  "en2an (\<lambda>c. [c]) (cps ''  '') = 0 \<and> ar2an (cps ''  '') = 0"
proof -
  have "\<forall>c\<in>set (cps ''  ''). isspace c \<and> lower_cp (\<lambda>c. [c]) c = [c]"
    by (simp add: cps_def isspace_def lower_cp_def ascii_lower_def)
  with empty_phrase_zero [of "\<lambda>c. [c]" "cps ''  ''"] show ?thesis
    by blast
qed

end
